theory Spec2Isabelle
  imports Complex_Main
begin

section \<open>Strings and numbers as the template literals render them\<close>

text \<open>
  JavaScript numbers that hold counts are modelled as \<open>nat\<close> or \<open>int\<close>;
  times, durations, token balances and random draws are modelled as exact rationals.
  A template literal renders an integer in decimal.
\<close>

definition digit :: "nat \<Rightarrow> char" where
  "digit d = ''0123456789'' ! d"

fun show_nat :: "nat \<Rightarrow> string" where
  "show_nat n = (if n < 10 then [digit n] else show_nat (n div 10) @ [digit (n mod 10)])"

declare show_nat.simps [simp del]

definition show_int :: "int \<Rightarrow> string" where
  "show_int i = (if i < 0 then CHR ''-'' # show_nat (nat (- i)) else show_nat (nat i))"

section \<open>Endpoints (utils.ts) and the pool constructor (RpcPoolProvider.ts)\<close>

text \<open>
  An \<open>Endpoint\<close> carries its \<open>providerId\<close>, its \<open>url\<close> and references to
  its client and limiter objects; \<open>provider\<close> is the handle of the client object.
\<close>

record endpoint =
  providerId :: string
  url :: string
  provider :: nat

text \<open>
  The endpoints the constructor builds; the semaphore and the client created for each
  entry are objects of their own and are not part of the list modelled here.
  \<^verbatim>\<open>this.params.urls.map((url, i) => {
     const providerId = `rpc#${i + 1}-chainId:${this.params.chainId}-${url}`; ...
     return { providerId, url, provider, limiter }; })\<close>
\<close>

definition mkProviderId :: "int \<Rightarrow> nat \<Rightarrow> string \<Rightarrow> string" where
  "mkProviderId chainId i u =
     ''rpc#'' @ show_nat (i + 1) @ ''-chainId:'' @ show_int chainId @ ''-'' @ u"

definition mkEndpoints :: "int \<Rightarrow> string list \<Rightarrow> endpoint list" where
  "mkEndpoints chainId urls =
     map (\<lambda>(i, u). \<lparr>providerId = mkProviderId chainId i u, url = u, provider = i\<rparr>)
       (enumerate 0 urls)"

text \<open>The format the specification documents: \<open>"rpc#" + (i+1) + "-" + groupId + "-" + url\<close>.\<close>

definition specProviderId :: "int \<Rightarrow> nat \<Rightarrow> string \<Rightarrow> string" where
  "specProviderId groupId i u =
     ''rpc#'' @ show_nat (i + 1) @ ''-'' @ show_int groupId @ ''-'' @ u"

section \<open>Router (Router.ts)\<close>

text \<open>
  The router owns the endpoint list and the counter \<open>rr\<close>. \<open>Stats.isInCooldown\<close> is
  passed as the predicate \<open>cd\<close> on provider ids. The index expression
  \<^verbatim>\<open>((this.rr++ % n) + n) % n\<close> is NaN for \<open>n = 0\<close>, and indexing an array with NaN
  yields \<open>undefined\<close>, modelled as \<open>None\<close>.
\<close>

definition rrIndex :: "endpoint list \<Rightarrow> nat \<Rightarrow> endpoint option" where
  "rrIndex eps rr =
     (let n = length eps in if n = 0 then None else Some (eps ! (((rr mod n) + n) mod n)))"

text \<open>
  The \<^verbatim>\<open>for (let k = 0; k < n; k++)\<close> scan, with the number of remaining rounds. The
  loop runs only for \<open>n > 0\<close>, where the index is in range; the \<open>None\<close> branch is
  never taken from \<open>pick\<close>.
\<close>

fun scan :: "endpoint list \<Rightarrow> (string \<Rightarrow> bool) \<Rightarrow> nat \<Rightarrow> nat \<Rightarrow> endpoint option \<times> nat" where
  "scan eps cd 0 rr = (None, rr)"
| "scan eps cd (Suc k) rr =
     (case rrIndex eps rr of
        None \<Rightarrow> (None, Suc rr)
      | Some ep \<Rightarrow> if \<not> cd (providerId ep) then (Some ep, Suc rr) else scan eps cd k (Suc rr))"

definition size_router :: "endpoint list \<Rightarrow> nat" where
  "size_router eps = length eps"

definition pick :: "endpoint list \<Rightarrow> (string \<Rightarrow> bool) \<Rightarrow> nat \<Rightarrow> endpoint option \<times> nat" where
  "pick eps cd rr =
     (case scan eps cd (length eps) rr of
        (Some ep, rr') \<Rightarrow> (Some ep, rr')
      | (None, rr') \<Rightarrow> (rrIndex eps rr', Suc rr'))"

text \<open>Successive calls of \<open>pick\<close>, collecting what each returns.\<close>

fun picks :: "endpoint list \<Rightarrow> (string \<Rightarrow> bool) \<Rightarrow> nat \<Rightarrow> nat \<Rightarrow> endpoint option list" where
  "picks eps cd 0 rr = []"
| "picks eps cd (Suc m) rr = (case pick eps cd rr of (r, rr') \<Rightarrow> r # picks eps cd m rr')"

text \<open>The endpoint \<open>ep(id)\<close> of the router tests.\<close>

definition test_ep :: "string \<Rightarrow> endpoint" where
  "test_ep i = \<lparr>providerId = i, url = ''http://example.invalid/'' @ i, provider = 0\<rparr>"

section \<open>Semaphore (Semaphore.ts)\<close>

text \<open>
  \<open>smax\<close> is the constructor argument (a JavaScript number), \<open>inUse\<close> and \<open>queue\<close>
  are the two private fields. Every call of \<open>acquire\<close> is numbered by a ticket, in call
  order; the queue holds the tickets of the pending closures. \<open>held\<close> lists the tickets
  whose release handle has been handed out with its \<open>released\<close> flag still false.
  \<open>waited\<close> and \<open>woken\<close> are history variables: the tickets that had to queue, in the
  order they called \<open>acquire\<close>, and the tickets that \<open>release\<close> resolved, in the order
  it resolved them.
\<close>

record semaphore =
  smax :: rat
  inUse :: int
  queue :: "nat list"
  held :: "nat list"
  nextTicket :: nat
  waited :: "nat list"
  woken :: "nat list"

text \<open>The constructor throws unless \<open>max\<close> is finite and positive; \<open>None\<close> is the throw.\<close>

definition Semaphore_new :: "rat \<Rightarrow> semaphore option" where
  "Semaphore_new m =
     (if m \<le> 0 then None
      else Some \<lparr>smax = m, inUse = 0, queue = [], held = [], nextTicket = 0,
                 waited = [], woken = []\<rparr>)"

definition acquire :: "semaphore \<Rightarrow> semaphore" where
  "acquire s =
     (let t = nextTicket s; s0 = s\<lparr>nextTicket := Suc t\<rparr> in
      if of_int (inUse s0) < smax s0
      then s0\<lparr>inUse := inUse s0 + 1, held := held s0 @ [t]\<rparr>
      else s0\<lparr>queue := queue s0 @ [t], waited := waited s0 @ [t]\<rparr>)"

text \<open>The private \<open>release()\<close>: decrement, then \<open>queue.shift()\<close> and run the closure.\<close>

definition release :: "semaphore \<Rightarrow> semaphore" where
  "release s =
     (let s1 = s\<lparr>inUse := max 0 (inUse s - 1)\<rparr> in
      case queue s1 of
        [] \<Rightarrow> s1
      | t # q \<Rightarrow> s1\<lparr>queue := q, inUse := inUse s1 + 1, held := held s1 @ [t],
                      woken := woken s1 @ [t]\<rparr>)"

text \<open>
  The release handle of ticket \<open>t\<close>: \<^verbatim>\<open>if (released) return; released = true; this.release()\<close>.
  A ticket that holds no slot has no handle to call, or a handle already used.
\<close>

definition releaseHandle :: "nat \<Rightarrow> semaphore \<Rightarrow> semaphore" where
  "releaseHandle t s =
     (if t \<in> set (held s) then release (s\<lparr>held := remove1 t (held s)\<rparr>) else s)"

datatype sem_op = Acquire | Release nat

fun sem_step :: "semaphore \<Rightarrow> sem_op \<Rightarrow> semaphore" where
  "sem_step s Acquire = acquire s"
| "sem_step s (Release t) = releaseHandle t s"

definition sem_run :: "semaphore \<Rightarrow> sem_op list \<Rightarrow> semaphore" where
  "sem_run s ops = foldl sem_step s ops"

section \<open>RpsLimiter (RpsLimiter.ts)\<close>

record limiter =
  rps :: rat
  burst :: rat
  tokens :: rat
  lastRefill :: rat

definition RpsLimiter_new :: "rat \<Rightarrow> rat option \<Rightarrow> rat \<Rightarrow> limiter" where
  "RpsLimiter_new r b now =
     (let b' = (case b of None \<Rightarrow> max 1 (of_int \<lceil>r\<rceil>) | Some v \<Rightarrow> v)
      in \<lparr>rps = r, burst = b', tokens = b', lastRefill = now\<rparr>)"

definition refill :: "rat \<Rightarrow> limiter \<Rightarrow> limiter" where
  "refill now l =
     (if rps l \<le> 0 then l
      else let elapsed = now - lastRefill l in
        if elapsed \<le> 0 then l
        else l\<lparr>tokens := min (burst l) (tokens l + (elapsed / 1000) * rps l),
               lastRefill := now\<rparr>)"

text \<open>
  The \<^verbatim>\<open>while (true)\<close> loop of \<open>take\<close>. \<open>now\<close> is what \<open>Date.now()\<close> reads at the top of
  the iteration, \<open>k\<close> counts the sleeps so far, and \<open>late k\<close> is how much later than asked
  the \<open>k\<close>-th timer fires. The result is the limiter, the time and the number of sleeps
  when the call resolves; \<open>None\<close> is a call that never resolves.
\<close>

partial_function (option) take_loop ::
  "(nat \<Rightarrow> rat) \<Rightarrow> rat \<Rightarrow> nat \<Rightarrow> rat \<Rightarrow> limiter \<Rightarrow> (limiter \<times> rat \<times> nat) option" where
  "take_loop late count k now l =
     (let l1 = refill now l in
      if tokens l1 \<ge> count then Some (l1\<lparr>tokens := tokens l1 - count\<rparr>, now, k)
      else
        let need = count - tokens l1;
            waitMs = of_int \<lceil>(need / rps l1) * 1000\<rceil>
        in take_loop late count (Suc k) (now + min waitMs 250 + late k) l1)"

declare take_loop.simps [code]

text \<open>\<open>take(count)\<close>.\<close>

definition take_limiter :: "(nat \<Rightarrow> rat) \<Rightarrow> rat \<Rightarrow> rat \<Rightarrow> limiter \<Rightarrow> (limiter \<times> rat \<times> nat) option" where
  "take_limiter late count now l =
     (if rps l = 0 \<or> rps l \<le> 0 then Some (l, now, 0) else take_loop late count 0 now l)"

section \<open>Errors and their classification (utils.ts)\<close>

text \<open>
  A thrown value, as far as the classifiers read it: \<open>status\<close> is what \<open>getHttpStatus\<close>
  finds (the first non-nullish of \<open>e.status\<close>, \<open>e.response.status\<close>, ...), \<open>code\<close> is
  \<open>e.code\<close>, \<open>message\<close> is \<^verbatim>\<open>String(e?.message || e)\<close>, and \<open>retryAfter\<close> is the
  retry-after header as \<open>Number\<close> reads it, \<open>None\<close> when that is not finite.
\<close>

record jserror =
  status :: "int option"
  code :: "string option"
  message :: string
  retryAfter :: "rat option"

definition newError :: "string \<Rightarrow> jserror" where
  "newError m = \<lparr>status = None, code = None, message = m, retryAfter = None\<rparr>"

definition getHttpStatus :: "jserror \<Rightarrow> int option" where
  "getHttpStatus e = status e"

text \<open>Literal patterns under the \<open>i\<close> flag: ASCII letters match in either case.\<close>

definition lower :: "char \<Rightarrow> char" where
  "lower c =
     (case map_of (zip ''ABCDEFGHIJKLMNOPQRSTUVWXYZ'' ''abcdefghijklmnopqrstuvwxyz'') c of
        None \<Rightarrow> c
      | Some d \<Rightarrow> d)"

fun matchesAt :: "string \<Rightarrow> string \<Rightarrow> bool" where
  "matchesAt [] s = True"
| "matchesAt (p # ps) [] = False"
| "matchesAt (p # ps) (c # cs) = (lower p = lower c \<and> matchesAt ps cs)"

fun testCI :: "string \<Rightarrow> string \<Rightarrow> bool" where
  "testCI p [] = matchesAt p []"
| "testCI p (c # cs) = (matchesAt p (c # cs) \<or> testCI p cs)"

text \<open>
  \<^verbatim>\<open>\s\<close>: tab, line feed, vertical tab, form feed, carriage return, space and the
  no-break space U+00A0; the other white space of \<^verbatim>\<open>\s\<close> lies above code unit 255.
\<close>

definition isSpace :: "char \<Rightarrow> bool" where
  "isSpace c = ((of_char c :: nat) \<in> set [9, 10, 11, 12, 13, 32, 160])"

text \<open>\<^verbatim>\<open>/error code:\s*1015/i\<close>\<close>

fun testCloudflare :: "string \<Rightarrow> bool" where
  "testCloudflare [] = False"
| "testCloudflare (c # cs) =
     ((matchesAt ''error code:'' (c # cs) \<and>
       matchesAt ''1015'' (dropWhile isSpace (drop 11 (c # cs)))) \<or> testCloudflare cs)"

definition isRateLimitError :: "jserror \<Rightarrow> bool" where
  "isRateLimitError e =
     (let st = getHttpStatus e in
      if st = Some 429 \<or> st = Some 402 then True
      else let msg = message e in
        if testCloudflare msg then True
        else list_ex (\<lambda>p. testCI p msg)
               [''rate limit'', ''payment required'', ''too many requests'', ''429'',
                ''quota'', ''throttl''])"

definition getRetryAfterMs :: "jserror \<Rightarrow> rat option" where
  "getRetryAfterMs e = (case retryAfter e of None \<Rightarrow> None | Some n \<Rightarrow> Some (n * 1000))"

definition isTimeoutError :: "jserror \<Rightarrow> bool" where
  "isTimeoutError e =
     (if code e = Some ''TIMEOUT'' then True
      else if getHttpStatus e = Some 504 then True
      else list_ex (\<lambda>p. testCI p (message e))
             [''timeout'', ''timed out'', ''ETIMEDOUT'', ''ESOCKETTIMEDOUT'',
              ''ECONNABORTED'', ''504 Gateway''])"

definition shouldFailover :: "jserror \<Rightarrow> bool" where
  "shouldFailover e = (let to = isTimeoutError e; rl = isRateLimitError e in to \<or> rl)"

text \<open>The error that the timer of \<open>withTimeout\<close> rejects with.\<close>

definition timeoutError :: "int \<Rightarrow> int \<Rightarrow> string \<Rightarrow> string \<Rightarrow> jserror" where
  "timeoutError ms chain pid method =
     \<lparr>status = None, code = Some ''TIMEOUT'',
      message = ''RPC timeout after '' @ show_int ms @ ''ms''
        @ (if method \<noteq> [] then '' method='' @ method else [])
        @ (if pid \<noteq> [] then '' provider='' @ pid else [])
        @ '' chainId='' @ show_int chain,
      retryAfter = None\<rparr>"

text \<open>
  The base request, by when it settles: after how many milliseconds it resolves or
  rejects, or never. \<open>withTimeout\<close> races it against a timer of \<open>ms\<close> milliseconds and
  returns the time the race took and its outcome; the base request wins when it settles
  strictly before the timer.
\<close>

datatype 'r settle = Resolves rat 'r | Rejects rat jserror | Never

definition withTimeout ::
  "'r settle \<Rightarrow> int \<Rightarrow> int \<Rightarrow> string \<Rightarrow> string \<Rightarrow> rat \<times> (jserror + 'r)" where
  "withTimeout p ms chain pid method =
     (case p of
        Resolves d r \<Rightarrow>
          if d < of_int ms then (d, Inr r) else (of_int ms, Inl (timeoutError ms chain pid method))
      | Rejects d e \<Rightarrow>
          if d < of_int ms then (d, Inl e) else (of_int ms, Inl (timeoutError ms chain pid method))
      | Never \<Rightarrow> (of_int ms, Inl (timeoutError ms chain pid method)))"

section \<open>Stats (Stats.ts)\<close>

text \<open>
  The counters and maps of \<open>Stats\<close>, under the names \<open>snapshot()\<close> gives them. A
  \<open>Record<string, number>\<close> is a partial map; \<^verbatim>\<open>map[key] || 0\<close> reads a missing key as 0.
\<close>

record Stats =
  total_stats :: nat
  inFlight :: nat
  perMethodTotal :: "string \<rightharpoonup> nat"
  rateLimitedTotal :: nat
  timeoutTotal :: nat
  perProviderInFlight :: "string \<rightharpoonup> nat"
  perProviderTotal :: "string \<rightharpoonup> nat"
  perProviderTimeout :: "string \<rightharpoonup> nat"
  perProviderRateLimited :: "string \<rightharpoonup> nat"
  providerCooldownUntil :: "string \<rightharpoonup> rat"

definition Stats_new :: Stats where
  "Stats_new =
     \<lparr>total_stats = 0, inFlight = 0, perMethodTotal = Map.empty, rateLimitedTotal = 0,
      timeoutTotal = 0, perProviderInFlight = Map.empty, perProviderTotal = Map.empty,
      perProviderTimeout = Map.empty, perProviderRateLimited = Map.empty,
      providerCooldownUntil = Map.empty\<rparr>"

definition orZero :: "nat option \<Rightarrow> nat" where
  "orZero v = (case v of None \<Rightarrow> 0 | Some n \<Rightarrow> n)"

definition bump :: "(string \<rightharpoonup> nat) \<Rightarrow> string \<Rightarrow> (string \<rightharpoonup> nat)" where
  "bump m k = m(k \<mapsto> orZero (m k) + 1)"

definition decrease :: "(string \<rightharpoonup> nat) \<Rightarrow> string \<Rightarrow> (string \<rightharpoonup> nat)" where
  "decrease m k = m(k \<mapsto> orZero (m k) - 1)"

definition bumpInFlightPerProvider :: "string \<Rightarrow> Stats \<Rightarrow> Stats" where
  "bumpInFlightPerProvider i s =
     s\<lparr>inFlight := inFlight s + 1, perProviderInFlight := bump (perProviderInFlight s) i\<rparr>"

definition decreaseInFlightPerProvider :: "string \<Rightarrow> Stats \<Rightarrow> Stats" where
  "decreaseInFlightPerProvider i s =
     s\<lparr>inFlight := inFlight s - 1, perProviderInFlight := decrease (perProviderInFlight s) i\<rparr>"

definition bumpPerMethod :: "string \<Rightarrow> Stats \<Rightarrow> Stats" where
  "bumpPerMethod m s = s\<lparr>perMethodTotal := bump (perMethodTotal s) m\<rparr>"

definition bumpRateLimitedPerProvider :: "string \<Rightarrow> Stats \<Rightarrow> Stats" where
  "bumpRateLimitedPerProvider i s =
     s\<lparr>rateLimitedTotal := rateLimitedTotal s + 1,
       perProviderRateLimited := bump (perProviderRateLimited s) i\<rparr>"

definition bumpTimeoutPerProvider :: "string \<Rightarrow> Stats \<Rightarrow> Stats" where
  "bumpTimeoutPerProvider i s =
     s\<lparr>timeoutTotal := timeoutTotal s + 1, perProviderTimeout := bump (perProviderTimeout s) i\<rparr>"

definition bumpProviderTotal :: "string \<Rightarrow> Stats \<Rightarrow> Stats" where
  "bumpProviderTotal i s =
     s\<lparr>total_stats := total_stats s + 1,
       perProviderTotal := (perProviderTotal s)(i \<mapsto> orZero (perProviderTotal s i) + 1)\<rparr>"

definition timeoutRatio :: "Stats \<Rightarrow> string \<Rightarrow> rat" where
  "timeoutRatio s i =
     (let t = orZero (perProviderTimeout s i); n = orZero (perProviderTotal s i)
      in if n \<noteq> 0 then of_nat t / of_nat n else 0)"

text \<open>\<open>now\<close> is what \<open>Date.now()\<close> reads inside the method.\<close>

definition isInCooldown :: "Stats \<Rightarrow> rat \<Rightarrow> string \<Rightarrow> bool" where
  "isInCooldown s now i =
     ((case providerCooldownUntil s i of None \<Rightarrow> 0 | Some u \<Rightarrow> u) > now)"

definition setCooldown :: "string \<Rightarrow> rat \<Rightarrow> rat \<Rightarrow> Stats \<Rightarrow> Stats" where
  "setCooldown i ms now s = s\<lparr>providerCooldownUntil := (providerCooldownUntil s)(i \<mapsto> now + ms)\<rparr>"

definition snapshot :: "Stats \<Rightarrow> Stats" where
  "snapshot s = s"

section \<open>InstrumentedStaticJsonRpcProvider (InstrumentedProvider.ts)\<close>

text \<open>\<open>ProviderParams\<close>; an optional field that is omitted is \<open>None\<close>.\<close>

record ProviderParams =
  p_url :: string
  p_chainId :: int
  p_providerId :: string
  p_inFlight :: "rat option"
  p_timeout :: "int option"
  p_rps :: "rat option"
  p_rpsBurst :: "rat option"

datatype RpcEvent =
    Request int string string rat
  | Response int string string rat rat rat
  | Failure int string string rat rat rat bool bool "int option" "string option" string

text \<open>
  The timer handed to \<open>withTimeout\<close>: \<^verbatim>\<open>this.params.timeout || 10_0000\<close>. The first
  revision of the class, whose constructor took no \<open>timeout\<close>, passed \<^verbatim>\<open>10_000\<close>.
\<close>

definition perCallTimeout :: "ProviderParams \<Rightarrow> int" where
  "perCallTimeout p = (case p_timeout p of None \<Rightarrow> 100000 | Some t \<Rightarrow> if t = 0 then 100000 else t)"

definition perCallTimeout_v1 :: int where
  "perCallTimeout_v1 = 10000"

text \<open>
  The statistics updates of the \<open>catch\<close> block. \<open>now\<close> is the clock reading in the
  block and \<open>rnd\<close> the draw of \<open>Math.random()\<close>.
\<close>

definition onFailure :: "string \<Rightarrow> jserror \<Rightarrow> rat \<Rightarrow> rat \<Rightarrow> Stats \<Rightarrow> Stats" where
  "onFailure pid e now rnd s =
     (let rl = isRateLimitError e;
          s1 = (if rl then
                  let s' = bumpRateLimitedPerProvider pid s;
                      cooldownMs = 10000;
                      raMs = (case getRetryAfterMs e of None \<Rightarrow> cooldownMs | Some ra \<Rightarrow> ra)
                  in setCooldown pid raMs now s'
                else s);
          isTimeout = isTimeoutError e
      in if isTimeout then
           let s2 = bumpTimeoutPerProvider pid s1;
               n = orZero (perProviderTotal (snapshot s2) pid);
               ratio = timeoutRatio s2 pid
           in if n \<ge> 50 \<and> ratio \<ge> 2 / 10 then
                let cooldownMs = (if ratio \<ge> 5 / 10 then 600 * 1000 else 60000);
                    raMs = (case getRetryAfterMs e of None \<Rightarrow> cooldownMs | Some ra \<Rightarrow> ra)
                in setCooldown pid (raMs + of_int \<lfloor>rnd * 1000\<rfloor>) now s2
              else s2
         else s1)"

text \<open>
  \<open>_sendInstrumented\<close>: the outcome, the events passed to \<open>onEvent\<close> (when the hook is
  there) and the statistics afterwards. \<open>startedAt\<close> is the first clock reading and
  \<open>base\<close> says when \<open>super.send\<close> settles; the clock readings after the race
  (\<open>endedAt\<close> and the one inside \<open>setCooldown\<close>) are \<open>startedAt\<close> plus the time the
  race took.
\<close>

definition sendInstrumented ::
  "ProviderParams \<Rightarrow> string \<Rightarrow> rat \<Rightarrow> 'r settle \<Rightarrow> rat \<Rightarrow> Stats \<Rightarrow>
     (jserror + 'r) \<times> RpcEvent list \<times> Stats" where
  "sendInstrumented p method startedAt base rnd s =
     (let pid = p_providerId p; chain = p_chainId p;
          s1 = bumpPerMethod method (bumpProviderTotal pid (bumpInFlightPerProvider pid s));
          req = Request chain pid method startedAt
      in case withTimeout base (perCallTimeout p) chain pid method of
           (elapsed, Inr res) \<Rightarrow>
             let endedAt = startedAt + elapsed in
             (Inr res, [req, Response chain pid method startedAt endedAt (endedAt - startedAt)],
              decreaseInFlightPerProvider pid s1)
         | (elapsed, Inl e) \<Rightarrow>
             let endedAt = startedAt + elapsed;
                 s2 = onFailure pid e endedAt rnd s1
             in (Inl e,
                 [req, Failure chain pid method startedAt endedAt (endedAt - startedAt)
                         (isRateLimitError e) (isTimeoutError e) (getHttpStatus e) (code e)
                         (message e)],
                 decreaseInFlightPerProvider pid s2))"

section \<open>RPCPoolProvider.send (RpcPoolProvider.ts)\<close>

text \<open>
  What \<open>send\<close> calls, over a world \<open>'w\<close> that holds whatever these calls read and change
  (the router's counter, the statistics, the clock): \<open>router.size()\<close>, \<open>router.pick()\<close>
  (\<open>None\<close> is \<open>undefined\<close>), \<open>ep.provider.send(method, params)\<close>, \<open>Math.random()\<close> and
  the timed wait.
\<close>

record ('w, 'p, 'r) env =
  router_size :: "'w \<Rightarrow> nat"
  router_pick :: "'w \<Rightarrow> endpoint option \<times> 'w"
  provider_send :: "endpoint \<Rightarrow> string \<Rightarrow> 'p \<Rightarrow> 'w \<Rightarrow> (jserror + 'r) \<times> 'w"
  math_random :: "'w \<Rightarrow> rat \<times> 'w"
  set_timeout :: "rat \<Rightarrow> 'w \<Rightarrow> 'w"

text \<open>The calls \<open>send\<close> makes, in order: what a spy on each collaborator records.\<close>

datatype call = Pick | Send endpoint | Sleep rat

definition noRpcAvailable :: jserror where
  "noRpcAvailable = newError ''No RPC available''"

text \<open>Reading \<open>ep.providerId\<close> of \<open>undefined\<close> throws a \<open>TypeError\<close>.\<close>

definition typeError :: jserror where
  "typeError = newError ''Cannot read properties of undefined (reading 'providerId')''"

text \<open>
  The \<open>while\<close> loop. \<open>tried\<close> is the \<open>Set\<close> in insertion order, \<open>tr\<close> the calls made so
  far. The result is what the caller gets (\<open>Inl\<close> a thrown error), the calls and the
  world; \<open>None\<close> is a loop that never ends.
\<close>

partial_function (option) send_loop ::
  "('w, 'p, 'r) env \<Rightarrow> int \<Rightarrow> string \<Rightarrow> 'p \<Rightarrow> string list \<Rightarrow> call list \<Rightarrow> 'w \<Rightarrow>
     ((jserror + 'r) \<times> call list \<times> 'w) option" where
  "send_loop env maxUniqueTries method params tried tr w =
     (if int (length tried) < maxUniqueTries then
        (case router_pick env w of
           (None, w1) \<Rightarrow> Some (Inl typeError, tr @ [Pick], w1)
         | (Some ep, w1) \<Rightarrow>
             if providerId ep \<in> set tried
             then send_loop env maxUniqueTries method params tried (tr @ [Pick]) w1
             else
               let tried' = tried @ [providerId ep] in
               (case provider_send env ep method params w1 of
                  (Inr res, w2) \<Rightarrow> Some (Inr res, tr @ [Pick, Send ep], w2)
                | (Inl e, w2) \<Rightarrow>
                    if \<not> shouldFailover e then Some (Inl e, tr @ [Pick, Send ep], w2)
                    else if int (length tried') \<ge> maxUniqueTries
                    then Some (Inl e, tr @ [Pick, Send ep], w2)
                    else
                      let baseDelay = min (1000 * 2 ^ (length tried' - 1)) 5000 in
                      (case math_random env w2 of
                         (r, w3) \<Rightarrow>
                           let jitter = r * baseDelay in
                           send_loop env maxUniqueTries method params tried'
                             (tr @ [Pick, Send ep, Sleep jitter]) (set_timeout env jitter w3))))
      else Some (Inl noRpcAvailable, tr, w))"

declare send_loop.simps [code]

text \<open>
  One pass through the body of the \<open>while\<close> loop, on its own: either the call is over
  (\<open>Done\<close>), or the loop goes round again with the new \<open>tried\<close>, calls and world.
\<close>

datatype ('w, 'r) iteration =
    Done "(jserror + 'r) \<times> call list \<times> 'w"
  | Again "string list" "call list" 'w

definition send_iteration ::
  "('w, 'p, 'r) env \<Rightarrow> int \<Rightarrow> string \<Rightarrow> 'p \<Rightarrow> string list \<Rightarrow> call list \<Rightarrow> 'w \<Rightarrow>
     ('w, 'r) iteration" where
  "send_iteration env maxUniqueTries method params tried tr w =
     (case router_pick env w of
        (None, w1) \<Rightarrow> Done (Inl typeError, tr @ [Pick], w1)
      | (Some ep, w1) \<Rightarrow>
          if providerId ep \<in> set tried then Again tried (tr @ [Pick]) w1
          else
            let tried' = tried @ [providerId ep] in
            (case provider_send env ep method params w1 of
               (Inr res, w2) \<Rightarrow> Done (Inr res, tr @ [Pick, Send ep], w2)
             | (Inl e, w2) \<Rightarrow>
                 if \<not> shouldFailover e then Done (Inl e, tr @ [Pick, Send ep], w2)
                 else if int (length tried') \<ge> maxUniqueTries
                 then Done (Inl e, tr @ [Pick, Send ep], w2)
                 else
                   let baseDelay = min (1000 * 2 ^ (length tried' - 1)) 5000 in
                   (case math_random env w2 of
                      (r, w3) \<Rightarrow>
                        let jitter = r * baseDelay in
                        Again tried' (tr @ [Pick, Send ep, Sleep jitter])
                          (set_timeout env jitter w3))))"

definition send :: "('w, 'p, 'r) env \<Rightarrow> int \<Rightarrow> string \<Rightarrow> 'p \<Rightarrow> 'w \<Rightarrow>
     ((jserror + 'r) \<times> call list \<times> 'w) option" where
  "send env attempts method params w =
     (let maxUniqueTries = min attempts (int (router_size env w))
      in send_loop env maxUniqueTries method params [] [] w)"

text \<open>
  The pool over a real router with endpoints \<open>eps\<close>: the world is the router's counter,
  the cooldown predicate \<open>cd\<close>, what each endpoint answers and the random draw are fixed.
\<close>

definition routerEnv ::
  "endpoint list \<Rightarrow> (string \<Rightarrow> bool) \<Rightarrow> (endpoint \<Rightarrow> jserror + 'r) \<Rightarrow> rat \<Rightarrow> (nat, 'p, 'r) env" where
  "routerEnv eps cd answer r =
     \<lparr>router_size = (\<lambda>rr. size_router eps),
      router_pick = (\<lambda>rr. pick eps cd rr),
      provider_send = (\<lambda>ep method params rr. (answer ep, rr)),
      math_random = (\<lambda>rr. (r, rr)),
      set_timeout = (\<lambda>d rr. rr)\<rparr>"

text \<open>
  The invariant of the semaphore for a capacity \<open>m\<close>: \<open>inUse\<close> counts the handles that
  are out, it never passes the capacity rounded up, nobody waits while a slot is free,
  and the tickets woken so far followed by those still queued are the tickets that
  waited, in the order they called \<open>acquire\<close>.
\<close>

definition sem_inv :: "rat \<Rightarrow> semaphore \<Rightarrow> bool" where
  "sem_inv m s \<longleftrightarrow>
     smax s = m \<and> inUse s = int (length (held s)) \<and> inUse s \<le> \<lceil>m\<rceil> \<and>
     (queue s \<noteq> [] \<longrightarrow> m \<le> of_int (inUse s)) \<and> waited s = woken s @ queue s"

text \<open>
  Concrete inputs. \<open>bothErr\<close> is an HTTP 429 whose message speaks of a timeout;
  \<open>params0\<close> omits every optional field; \<open>stats50\<close> is what the \<open>catch\<close> block of
  the fiftieth call sees after forty successes and nine timeouts; \<open>badReq\<close>,
  \<open>rateLimitErr\<close> and \<open>timeoutErr\<close> are the errors of the repository's tests.
\<close>

definition bothErr :: jserror where
  "bothErr = (newError ''upstream request timeout'')\<lparr>status := Some 429\<rparr>"

definition params0 :: ProviderParams where
  "params0 = \<lparr>p_url = ''http://example.invalid'', p_chainId = 1, p_providerId = ''p1'',
     p_inFlight = None, p_timeout = None, p_rps = None, p_rpsBurst = None\<rparr>"

definition stats50 :: Stats where
  "stats50 = Stats_new\<lparr>total_stats := 50, perProviderTotal := [''p1'' \<mapsto> 50],
      timeoutTotal := 9, perProviderTimeout := [''p1'' \<mapsto> 9]\<rparr>"

definition badReq :: jserror where
  "badReq = (newError ''bad request'')\<lparr>status := Some 400\<rparr>"

definition rateLimitErr :: jserror where
  "rateLimitErr = (newError ''rate limit'')\<lparr>status := Some 429\<rparr>"

definition timeoutErr :: jserror where
  "timeoutErr = (newError ''timeout'')\<lparr>code := Some ''TIMEOUT''\<rparr>"

section \<open>Provider identifiers\<close>

lemma mkEndpoints_length: "length (mkEndpoints chainId urls) = length urls"
  by (simp add: mkEndpoints_def)

lemma mkEndpoints_nth:
  "i < length urls \<Longrightarrow>
   mkEndpoints chainId urls ! i =
     \<lparr>providerId = mkProviderId chainId i (urls ! i), url = urls ! i, provider = i\<rparr>"
  by (simp add: mkEndpoints_def nth_enumerate_eq)

text \<open>
  C2, as stated: the \<open>providerId\<close> of entry \<open>i\<close> is
  \<open>"rpc#" + (i+1) + "-" + groupId + "-" + url\<close>. The constructor writes the literal
  \<open>chainId:\<close> before the group identifier, so the first endpoint of chain 1 is
  \<open>rpc#1-chainId:1-http://rpc1.invalid\<close> and not \<open>rpc#1-1-http://rpc1.invalid\<close>.
\<close>

theorem providerId_spec_format_counterexample:
  "providerId (mkEndpoints 1 [''http://rpc1.invalid''] ! 0) = ''rpc#1-chainId:1-http://rpc1.invalid'' \<and>
   specProviderId 1 0 ''http://rpc1.invalid'' = ''rpc#1-1-http://rpc1.invalid'' \<and>
   providerId (mkEndpoints 1 [''http://rpc1.invalid''] ! 0) \<noteq> specProviderId 1 0 ''http://rpc1.invalid''"
  by (simp add: mkEndpoints_def mkProviderId_def specProviderId_def show_int_def
      show_nat.simps digit_def)

text \<open>
  C2, amended: for every pool built from an ordered list of URLs with chain id
  \<open>chainId\<close>, the \<open>providerId\<close> of entry \<open>i\<close> (counting from 0) is
  \<open>"rpc#" + (i+1) + "-chainId:" + chainId + "-" + url\<close>.
\<close>

theorem providerId_format:
  "i < length urls \<Longrightarrow>
   providerId (mkEndpoints chainId urls ! i) =
     ''rpc#'' @ show_nat (i + 1) @ ''-chainId:'' @ show_int chainId @ ''-'' @ urls ! i"
  by (simp add: mkEndpoints_nth mkProviderId_def)

theorem providerId_format_witness:
  "(1::nat) < length [''http://rpc1.invalid'', ''http://rpc2.invalid''] \<and>
   providerId (mkEndpoints 1 [''http://rpc1.invalid'', ''http://rpc2.invalid''] ! 1) =
     ''rpc#2-chainId:1-http://rpc2.invalid''"
  using providerId_format [of 1 "[''http://rpc1.invalid'', ''http://rpc2.invalid'']" 1]
  by (simp add: show_int_def show_nat.simps digit_def)

section \<open>Router\<close>

lemma scan_all_cooldown:
  "\<forall>e \<in> set eps. cd (providerId e) \<Longrightarrow> eps \<noteq> [] \<Longrightarrow> scan eps cd k rr = (None, rr + k)"
  by (induction k arbitrary: rr) (auto simp: rrIndex_def Let_def)

lemma pick_all_cooldown:
  "eps \<noteq> [] \<Longrightarrow> \<forall>e \<in> set eps. cd (providerId e) \<Longrightarrow>
   pick eps cd rr = (Some (eps ! (rr mod length eps)), rr + length eps + 1)"
  by (simp add: pick_def scan_all_cooldown rrIndex_def Let_def)

lemma picks_all_cooldown:
  "eps \<noteq> [] \<Longrightarrow> \<forall>e \<in> set eps. cd (providerId e) \<Longrightarrow>
   picks eps cd m rr = map (\<lambda>j. Some (eps ! ((rr + j) mod length eps))) [0..<m]"
proof (induction m arbitrary: rr)
  case 0
  then show ?case by simp
next
  case (Suc m)
  have shift: "[0..<Suc m] = 0 # map Suc [0..<m]"
    by (simp add: upt_conv_Cons map_Suc_upt del: upt_Suc)
  have step: "Suc (rr + length eps + j) mod length eps = Suc (rr + j) mod length eps" for j
  proof -
    have "Suc (rr + length eps + j) = Suc (rr + j) + length eps"
      by simp
    then show ?thesis
      by (simp only: mod_add_self2)
  qed
  show ?case
    using Suc.prems
    by (simp add: pick_all_cooldown Suc.IH shift step comp_def del: upt_Suc)
qed

text \<open>
  C7: over at least one endpoint, when every endpoint is in cooldown, \<open>pick()\<close> returns
  the endpoint at position \<open>rr mod n\<close> and leaves the counter at \<open>rr + n + 1\<close>, one
  position further modulo \<open>n\<close>; so \<open>m\<close> successive picks walk the list round-robin
  from \<open>rr mod n\<close>, and over \<open>[a, b, c]\<close> four picks give \<open>a, b, c, a\<close>.
\<close>

theorem pick_when_all_in_cooldown:
  assumes "eps \<noteq> []" and "\<forall>e \<in> set eps. cd (providerId e)"
  shows "pick eps cd rr = (Some (eps ! (rr mod length eps)), rr + length eps + 1) \<and>
         picks eps cd m rr = map (\<lambda>j. Some (eps ! ((rr + j) mod length eps))) [0..<m]"
  using assms by (simp add: pick_all_cooldown picks_all_cooldown)

theorem pick_when_all_in_cooldown_witness:
  "picks [test_ep ''a'', test_ep ''b'', test_ep ''c''] (\<lambda>i. True) 4 0 =
     [Some (test_ep ''a''), Some (test_ep ''b''), Some (test_ep ''c''), Some (test_ep ''a'')]"
proof -
  have u: "[0..<4::nat] = [0, 1, 2, 3]"
    by code_simp
  show ?thesis
    using pick_when_all_in_cooldown
      [of "[test_ep ''a'', test_ep ''b'', test_ep ''c'']" "\<lambda>i. True" 0 4]
    by (simp add: u)
qed

text \<open>
  C10: on a router with no endpoints \<open>pick()\<close> returns \<open>undefined\<close>: the scan does not
  run, the fallback index is NaN, and the counter is still incremented. It neither
  throws nor returns an endpoint.
\<close>

theorem pick_empty_undefined: "pick [] cd rr = (None, Suc rr)"
  by (simp add: pick_def rrIndex_def)

section \<open>The per-call timeout\<close>

text \<open>
  C1: with the \<open>timeout\<close> field omitted, the timer raced against the base request is
  100000 ms, not the documented 10000 ms that the first revision passed; a base request
  that never settles is given up after 100000 ms.
\<close>

theorem default_timeout_is_100000:
  "perCallTimeout (p\<lparr>p_timeout := None\<rparr>) = 100000 \<and>
   perCallTimeout (p\<lparr>p_timeout := None\<rparr>) \<noteq> perCallTimeout_v1 \<and>
   fst (withTimeout Never (perCallTimeout (p\<lparr>p_timeout := None\<rparr>)) c i m) = 100000"
  by (simp add: perCallTimeout_def perCallTimeout_v1_def withTimeout_def)

section \<open>The pool's send\<close>

text \<open>
  C5: when the router reports size zero, \<open>send\<close> throws the error
  \<open>No RPC available\<close> and makes no call at all: \<open>pick\<close> is never invoked.
\<close>

theorem send_no_endpoints:
  assumes "router_size env w = 0"
  shows "send env attempts method params w = Some (Inl noRpcAvailable, [], w)"
  using assms by (simp add: send_def send_loop.simps)

theorem send_no_endpoints_witness:
  "router_size (routerEnv [] (\<lambda>i. False) (\<lambda>e. Inr ''OK'') 0 :: (nat, unit, string) env) 0 = 0 \<and>
   send (routerEnv [] (\<lambda>i. False) (\<lambda>e. Inr ''OK'') 0) 3 ''eth_chainId'' () 0 =
     Some (Inl noRpcAvailable, [], 0)"
  using send_no_endpoints
    [of "routerEnv [] (\<lambda>i. False) (\<lambda>e. Inr ''OK'') 0" 0 3 "''eth_chainId''" "()"]
  by (simp add: routerEnv_def size_router_def)

lemma send_loop_terminal:
  assumes "int (length tried) < maxUniqueTries"
    and "router_pick env w = (Some ep, w1)"
    and "providerId ep \<notin> set tried"
    and "provider_send env ep method params w1 = (Inl e, w2)"
    and "\<not> shouldFailover e"
  shows "send_loop env maxUniqueTries method params tried tr w =
         Some (Inl e, tr @ [Pick, Send ep], w2)"
  using assms by (subst send_loop.simps) simp

text \<open>
  C4: when the first attempt fails with an error that is classified neither as
  rate-limit nor as timeout, \<open>send\<close> throws that same error; the calls it has made are
  one \<open>pick\<close> and one \<open>send\<close> on the picked endpoint, with no wait and no other client.
  More generally, at any iteration of the loop, an attempt on a fresh endpoint that fails
  with such an error ends the loop with that error, adding only that \<open>pick\<close> and that
  \<open>send\<close> to the calls made so far.
\<close>

theorem terminal_error_propagates:
  assumes "\<not> isRateLimitError e" and "\<not> isTimeoutError e"
    and "router_pick env w = (Some ep, w1)"
    and "provider_send env ep method params w1 = (Inl e, w2)"
  shows "(1 \<le> attempts \<and> 1 \<le> router_size env w \<longrightarrow>
            send env attempts method params w = Some (Inl e, [Pick, Send ep], w2)) \<and>
         (int (length tried) < maxUniqueTries \<and> providerId ep \<notin> set tried \<longrightarrow>
            send_loop env maxUniqueTries method params tried tr w =
              Some (Inl e, tr @ [Pick, Send ep], w2))"
proof -
  have nf: "\<not> shouldFailover e"
    using assms(1,2) by (simp add: shouldFailover_def)
  have "send env attempts method params w = Some (Inl e, [Pick, Send ep], w2)"
    if "1 \<le> attempts" and "1 \<le> router_size env w"
  proof -
    have "int (length ([]::string list)) < min attempts (int (router_size env w))"
      using that by simp
    then show ?thesis
      using nf assms(3,4)
        send_loop_terminal [of "[]" _ env w ep w1 "method" "params" e w2 "[]"]
      by (simp add: send_def)
  qed
  moreover have "send_loop env maxUniqueTries method params tried tr w =
      Some (Inl e, tr @ [Pick, Send ep], w2)"
    if "int (length tried) < maxUniqueTries" and "providerId ep \<notin> set tried"
    using that(1) assms(3) that(2) assms(4) nf by (rule send_loop_terminal)
  ultimately show ?thesis
    by blast
qed

theorem terminal_error_propagates_witness:
  "send (routerEnv [test_ep ''p1'', test_ep ''p2''] (\<lambda>i. False)
           (\<lambda>e. if providerId e = ''p1'' then Inl badReq else Inr ''SHOULD_NOT_BE_USED'') 0
           :: (nat, unit, string) env) 2 ''eth_call'' () 0 =
     Some (Inl badReq, [Pick, Send (test_ep ''p1'')], 1)"
proof -
  have c: "\<not> isRateLimitError badReq" "\<not> isTimeoutError badReq"
    by (simp_all add: badReq_def newError_def isRateLimitError_def isTimeoutError_def
        getHttpStatus_def lower_def)
  show ?thesis
    using terminal_error_propagates
      [OF c, of "routerEnv [test_ep ''p1'', test_ep ''p2''] (\<lambda>i. False)
           (\<lambda>e. if providerId e = ''p1'' then Inl badReq else Inr ''SHOULD_NOT_BE_USED'') 0"
          0 "test_ep ''p1''" 1 "''eth_call''" "()" 1 2]
    by (simp add: routerEnv_def size_router_def pick_def rrIndex_def test_ep_def)
qed

lemma send_loop_iteration:
  "send_loop env maxUniqueTries method params tried tr w =
     (if int (length tried) < maxUniqueTries then
        (case send_iteration env maxUniqueTries method params tried tr w of
           Done res \<Rightarrow> Some res
         | Again tried' tr' w' \<Rightarrow> send_loop env maxUniqueTries method params tried' tr' w')
      else Some (Inl noRpcAvailable, tr, w))"
  by (subst send_loop.simps)
    (simp add: send_iteration_def Let_def split: prod.split option.split sum.split)

text \<open>
  C6: when an attempt on a fresh endpoint fails with a failover-eligible error and
  \<open>triedCount\<close>, the number of unique endpoints tried including this one, is below the
  budget, the pass through the loop body ends in a wait of \<open>r * bound\<close> milliseconds,
  \<open>bound = min (1000 * 2 ^ (triedCount - 1)) 5000\<close>, and the loop goes round again;
  \<open>r\<close> is the draw of \<open>Math.random()\<close> in \<open>[0, 1)\<close>. The wait lies in \<open>[0, bound)\<close>,
  and it falls into an interval \<open>[a, b)\<close> exactly when the draw falls into
  \<open>[a / bound, b / bound)\<close>: the wait is spread over \<open>[0, bound)\<close> as the draw is over
  \<open>[0, 1)\<close>, uniformly for a uniform draw. When the next endpoint picked is a fresh one
  and answers, \<open>send\<close> returns that answer after exactly these calls.
\<close>

theorem backoff_wait:
  fixes r :: rat
  assumes "router_pick env w = (Some ep, w1)"
    and "providerId ep \<notin> set tried"
    and "provider_send env ep method params w1 = (Inl e, w2)"
    and "shouldFailover e"
    and "triedCount = length tried + 1"
    and "int triedCount < maxUniqueTries"
    and "math_random env w2 = (r, w3)"
    and "0 \<le> r" and "r < 1"
    and "bound = min (1000 * 2 ^ (triedCount - 1)) 5000"
  shows "send_iteration env maxUniqueTries method params tried tr w =
           Again (tried @ [providerId ep]) (tr @ [Pick, Send ep, Sleep (r * bound)])
             (set_timeout env (r * bound) w3) \<and>
         send_loop env maxUniqueTries method params tried tr w =
           send_loop env maxUniqueTries method params (tried @ [providerId ep])
             (tr @ [Pick, Send ep, Sleep (r * bound)]) (set_timeout env (r * bound) w3) \<and>
         0 \<le> r * bound \<and> r * bound < bound \<and>
         ((a \<le> r * bound \<and> r * bound < b) = (a / bound \<le> r \<and> r < b / bound)) \<and>
         (router_pick env (set_timeout env (r * bound) w3) = (Some ep2, w4) \<and>
          providerId ep2 \<notin> set (tried @ [providerId ep]) \<and>
          provider_send env ep2 method params w4 = (Inr res, w5) \<longrightarrow>
            send_loop env maxUniqueTries method params tried tr w =
              Some (Inr res, tr @ [Pick, Send ep, Sleep (r * bound), Pick, Send ep2], w5))"
proof -
  have b: "0 < bound"
    unfolding assms(10) by simp
  have bd: "bound = min (1000 * 2 ^ length tried) 5000"
    unfolding assms(10) assms(5) by simp
  have it: "send_iteration env maxUniqueTries method params tried tr w =
           Again (tried @ [providerId ep]) (tr @ [Pick, Send ep, Sleep (r * bound)])
             (set_timeout env (r * bound) w3)"
    using assms(1-7) by (simp add: send_iteration_def Let_def bd)
  have lp: "send_loop env maxUniqueTries method params tried tr w =
           send_loop env maxUniqueTries method params (tried @ [providerId ep])
             (tr @ [Pick, Send ep, Sleep (r * bound)]) (set_timeout env (r * bound) w3)"
    using assms(5,6) by (subst send_loop_iteration) (simp add: it)
  have "r * bound < 1 * bound"
    using assms(9) b by (rule mult_strict_right_mono)
  then have rg: "0 \<le> r * bound" "r * bound < bound"
    using assms(8) b by simp_all
  have un: "(a \<le> r * bound \<and> r * bound < b) = (a / bound \<le> r \<and> r < b / bound)"
    using b by (simp add: pos_divide_le_eq pos_less_divide_eq)
  have nx: "send_loop env maxUniqueTries method params tried tr w =
              Some (Inr res, tr @ [Pick, Send ep, Sleep (r * bound), Pick, Send ep2], w5)"
    if "router_pick env (set_timeout env (r * bound) w3) = (Some ep2, w4)"
      and "providerId ep2 \<notin> set (tried @ [providerId ep])"
      and "provider_send env ep2 method params w4 = (Inr res, w5)"
  proof -
    have "send_loop env maxUniqueTries method params (tried @ [providerId ep])
             (tr @ [Pick, Send ep, Sleep (r * bound)]) (set_timeout env (r * bound) w3) =
          Some (Inr res, (tr @ [Pick, Send ep, Sleep (r * bound)]) @ [Pick, Send ep2], w5)"
      using that assms(5,6) by (subst send_loop.simps) simp
    then show ?thesis
      by (simp add: lp)
  qed
  from it lp rg un nx show ?thesis
    by blast
qed

theorem backoff_wait_witness:
  "send (routerEnv [test_ep ''p1'', test_ep ''p2''] (\<lambda>i. False)
           (\<lambda>e. if providerId e = ''p1'' then Inl rateLimitErr else Inr ''OK2'') (1 / 2)
           :: (nat, unit, string) env) 2 ''eth_blockNumber'' () 0 =
     Some (Inr ''OK2'', [Pick, Send (test_ep ''p1''), Sleep 500, Pick, Send (test_ep ''p2'')], 2)"
proof -
  let ?env = "routerEnv [test_ep ''p1'', test_ep ''p2''] (\<lambda>i. False)
           (\<lambda>e. if providerId e = ''p1'' then Inl rateLimitErr else Inr ''OK2'') (1 / 2)
           :: (nat, unit, string) env"
  have h1: "router_pick ?env 0 = (Some (test_ep ''p1''), 1)"
    by code_simp
  have h2: "providerId (test_ep ''p1'') \<notin> set []"
    by simp
  have h3: "provider_send ?env (test_ep ''p1'') ''eth_blockNumber'' () 1 = (Inl rateLimitErr, 1)"
    by (simp add: routerEnv_def test_ep_def)
  have h4: "shouldFailover rateLimitErr"
    by (simp add: shouldFailover_def isRateLimitError_def getHttpStatus_def rateLimitErr_def
        newError_def)
  have h5: "(1::nat) = length ([]::string list) + 1"
    by simp
  have h6: "int 1 < 2"
    by simp
  have h7: "math_random ?env 1 = (1 / 2, 1)"
    by (simp add: routerEnv_def)
  have h8: "(0::rat) \<le> 1 / 2" and h9: "(1 / 2 :: rat) < 1"
    by simp_all
  have h10: "(1000::rat) = min (1000 * 2 ^ (1 - 1)) 5000"
    by simp
  note th = backoff_wait [of ?env 0 "test_ep ''p1''" 1 "[]" "''eth_blockNumber''" "()"
        rateLimitErr 1 1 2 "1 / 2" 1 1000 "[]" 0 0 "test_ep ''p2''" 2 "''OK2''" 2,
        OF h1 h2 h3 h4 h5 h6 h7 h8 h9 h10]
  have n1: "router_pick ?env (set_timeout ?env (1 / 2 * 1000) 1) = (Some (test_ep ''p2''), 2)"
    by code_simp
  have n2: "providerId (test_ep ''p2'') \<notin> set ([] @ [providerId (test_ep ''p1'')])"
    by (simp add: test_ep_def)
  have n3: "provider_send ?env (test_ep ''p2'') ''eth_blockNumber'' () 2 = (Inr ''OK2'', 2)"
    by (simp add: routerEnv_def test_ep_def)
  have "send_loop ?env 2 ''eth_blockNumber'' () [] [] 0 =
     Some (Inr ''OK2'', [] @ [Pick, Send (test_ep ''p1''), Sleep (1 / 2 * 1000), Pick,
       Send (test_ep ''p2'')], 2)"
    by (rule th [THEN conjunct2, THEN conjunct2, THEN conjunct2, THEN conjunct2,
          THEN conjunct2, THEN mp]) (intro conjI n1 n2 n3)
  moreover have "router_size ?env 0 = 2"
    by (simp add: routerEnv_def size_router_def)
  ultimately show ?thesis
    by (simp add: send_def)
qed

section \<open>Cooldown after timeouts\<close>

lemma bumpTimeout_keeps [simp]:
  "perProviderTotal (bumpTimeoutPerProvider pid s) = perProviderTotal s"
  "providerCooldownUntil (bumpTimeoutPerProvider pid s) = providerCooldownUntil s"
  by (simp_all add: bumpTimeoutPerProvider_def)

lemma onFailure_timeout_only:
  assumes "isTimeoutError e" and "\<not> isRateLimitError e"
  shows "onFailure pid e now rnd s =
     (let s2 = bumpTimeoutPerProvider pid s;
          n = orZero (perProviderTotal s pid);
          ratio = timeoutRatio s2 pid
      in if n \<ge> 50 \<and> ratio \<ge> 2 / 10 then
           setCooldown pid
             ((case getRetryAfterMs e of None \<Rightarrow> if ratio \<ge> 5 / 10 then 600000 else 60000
               | Some ra \<Rightarrow> ra) + of_int \<lfloor>rnd * 1000\<rfloor>) now s2
         else s2)"
  using assms
  by (simp add: onFailure_def Let_def snapshot_def split: option.split)

text \<open>
  C3, as stated: an error classified as timeout places the endpoint into cooldown only
  when the endpoint has at least 50 calls and a timeout ratio of at least 0.2. An error
  with HTTP status 429 and the message \<open>upstream request timeout\<close> is classified as
  timeout and as rate-limit; on the first call ever made to the endpoint (total 1) the
  rate-limit branch of the same handler sets a cooldown of 10 s, and the endpoint, not
  in cooldown before, is in cooldown afterwards.
\<close>

theorem timeout_cooldown_counterexample:
  "isTimeoutError bothErr \<and>
   fst (sendInstrumented params0 ''eth_blockNumber'' 1000
          (Rejects 12 bothErr :: string settle) 0 Stats_new) = Inl bothErr \<and>
   perProviderTotal (snd (snd (sendInstrumented params0 ''eth_blockNumber'' 1000
          (Rejects 12 bothErr :: string settle) 0 Stats_new))) ''p1'' = Some 1 \<and>
   \<not> isInCooldown Stats_new 1012 ''p1'' \<and>
   isInCooldown (snd (snd (sendInstrumented params0 ''eth_blockNumber'' 1000
          (Rejects 12 bothErr :: string settle) 0 Stats_new))) 1012 ''p1''"
  by code_simp

lemma rateLimit_keeps [simp]:
  "perProviderTotal (setCooldown pid x now (bumpRateLimitedPerProvider pid s)) = perProviderTotal s"
  "providerCooldownUntil (bumpRateLimitedPerProvider pid s) = providerCooldownUntil s"
  by (simp_all add: setCooldown_def bumpRateLimitedPerProvider_def)

lemma ratio_after_rateLimit:
  "timeoutRatio (bumpTimeoutPerProvider pid (setCooldown pid x now (bumpRateLimitedPerProvider pid s))) pid =
   timeoutRatio (bumpTimeoutPerProvider pid s) pid"
  by (simp add: timeoutRatio_def bumpTimeoutPerProvider_def setCooldown_def
      bumpRateLimitedPerProvider_def)

lemma onFailure_both:
  assumes "isTimeoutError e" and "isRateLimitError e"
  shows "onFailure pid e now rnd s =
     (let s1 = setCooldown pid (case getRetryAfterMs e of None \<Rightarrow> 10000 | Some ra \<Rightarrow> ra) now
                 (bumpRateLimitedPerProvider pid s);
          s2 = bumpTimeoutPerProvider pid s1;
          n = orZero (perProviderTotal s pid);
          ratio = timeoutRatio (bumpTimeoutPerProvider pid s) pid
      in if n \<ge> 50 \<and> ratio \<ge> 2 / 10 then
           setCooldown pid
             ((case getRetryAfterMs e of None \<Rightarrow> if ratio \<ge> 5 / 10 then 600000 else 60000
               | Some ra \<Rightarrow> ra) + of_int \<lfloor>rnd * 1000\<rfloor>) now s2
         else s2)"
  using assms
  by (simp add: onFailure_def Let_def snapshot_def ratio_after_rateLimit split: option.split)

text \<open>
  C3, amended: for every error classified as timeout, with \<open>n\<close> the endpoint's total
  call count and \<open>ratio\<close> its timeout ratio once this error is counted: if \<open>n\<close> is
  at least 50 and \<open>ratio\<close> at least 0.2, the handler sets the endpoint's cooldown, to end
  at now + duration + jitter (the duration is the retry-after header when there is one,
  else 600 s for a ratio of at least 0.5 and 60 s below), whether or not the error is
  also classified as rate-limit. When either threshold is not met, the error does not
  place the endpoint into cooldown (the cooldown table is left as it was) unless it is
  also classified as rate-limit; then the rate-limit rule sets the cooldown, to end at
  now + the retry-after header, or now + 10 s without one.
\<close>

theorem timeout_cooldown_thresholds:
  assumes "isTimeoutError e"
    and "n = orZero (perProviderTotal s pid)"
    and "ratio = timeoutRatio (bumpTimeoutPerProvider pid s) pid"
    and "s' = onFailure pid e now rnd s"
  shows "(50 \<le> n \<and> 2 / 10 \<le> ratio \<longrightarrow>
            providerCooldownUntil s' =
              (providerCooldownUntil s)(pid \<mapsto> now +
                 ((case getRetryAfterMs e of
                     None \<Rightarrow> if 5 / 10 \<le> ratio then 600000 else 60000
                   | Some ra \<Rightarrow> ra) + of_int \<lfloor>rnd * 1000\<rfloor>))) \<and>
         (\<not> (50 \<le> n \<and> 2 / 10 \<le> ratio) \<and> \<not> isRateLimitError e \<longrightarrow>
            providerCooldownUntil s' = providerCooldownUntil s) \<and>
         (\<not> (50 \<le> n \<and> 2 / 10 \<le> ratio) \<and> isRateLimitError e \<longrightarrow>
            providerCooldownUntil s' =
              (providerCooldownUntil s)(pid \<mapsto> now +
                 (case getRetryAfterMs e of None \<Rightarrow> 10000 | Some ra \<Rightarrow> ra)))"
proof (cases "isRateLimitError e")
  case True
  show ?thesis
    unfolding assms(2,3,4) onFailure_both [OF assms(1) True]
    using True by (simp add: Let_def setCooldown_def split: option.split)
next
  case False
  show ?thesis
    unfolding assms(2,3,4) onFailure_timeout_only [OF assms(1) False]
    using False by (simp add: Let_def setCooldown_def split: option.split)
qed

theorem timeout_cooldown_thresholds_witness:
  "providerCooldownUntil (onFailure ''p1'' timeoutErr 1000 0 stats50) ''p1'' = Some 61000 \<and>
   providerCooldownUntil (onFailure ''p1'' timeoutErr 1000 0 Stats_new) ''p1'' = None \<and>
   providerCooldownUntil (onFailure ''p1'' bothErr 1000 0 stats50) ''p1'' = Some 61000 \<and>
   providerCooldownUntil (onFailure ''p1'' bothErr 1000 0 Stats_new) ''p1'' = Some 11000"
proof -
  have c: "isTimeoutError timeoutErr" "\<not> isRateLimitError timeoutErr"
    "isTimeoutError bothErr" "isRateLimitError bothErr"
    by code_simp+
  have r: "timeoutRatio (bumpTimeoutPerProvider ''p1'' stats50) ''p1'' = 2 / 10"
    "orZero (perProviderTotal stats50 ''p1'') = 50"
    "getRetryAfterMs timeoutErr = None" "getRetryAfterMs bothErr = None"
    "providerCooldownUntil stats50 = Map.empty"
    "orZero (perProviderTotal Stats_new ''p1'') = 0"
    "providerCooldownUntil Stats_new = Map.empty"
    by (simp_all add: timeoutRatio_def bumpTimeoutPerProvider_def stats50_def Stats_new_def
        bump_def orZero_def getRetryAfterMs_def timeoutErr_def bothErr_def newError_def)
  show ?thesis
    using timeout_cooldown_thresholds [OF c(1) refl refl refl, of stats50 "''p1''" 1000 0]
      timeout_cooldown_thresholds [OF c(1) refl refl refl, of Stats_new "''p1''" 1000 0]
      timeout_cooldown_thresholds [OF c(3) refl refl refl, of stats50 "''p1''" 1000 0]
      timeout_cooldown_thresholds [OF c(3) refl refl refl, of Stats_new "''p1''" 1000 0]
    by (simp add: r c)
qed

section \<open>Semaphore\<close>

lemma sem_inv_new: "Semaphore_new m = Some s \<Longrightarrow> sem_inv m s"
  by (auto simp: Semaphore_new_def sem_inv_def split: if_splits)

lemma below_capacity_step: "(of_nat n :: rat) < m \<Longrightarrow> int n + 1 \<le> \<lceil>m\<rceil>"
proof -
  assume "(of_nat n :: rat) < m"
  then have "of_int (int n) < m"
    by simp
  then have "int n < \<lceil>m\<rceil>"
    by (simp only: less_ceiling_iff)
  then show ?thesis
    by simp
qed

lemma sem_inv_acquire: "sem_inv m s \<Longrightarrow> sem_inv m (acquire s)"
  unfolding sem_inv_def acquire_def Let_def
  by (auto simp: not_less below_capacity_step)

lemma sem_inv_release:
  assumes "sem_inv m s" and "t \<in> set (held s)"
  shows "sem_inv m (release (s\<lparr>held := remove1 t (held s)\<rparr>))"
proof -
  have "length (held s) = Suc (length (remove1 t (held s)))"
    using assms(2) by (simp add: length_remove1) (metis length_pos_if_in_set Suc_pred)
  then show ?thesis
    using assms(1) unfolding sem_inv_def release_def Let_def
    by (auto split: list.splits)
qed

lemma sem_inv_step: "sem_inv m s \<Longrightarrow> sem_inv m (sem_step s x)"
  by (cases x) (auto simp: sem_inv_acquire sem_inv_release releaseHandle_def)

lemma sem_inv_run: "sem_inv m s \<Longrightarrow> sem_inv m (sem_run s ops)"
  unfolding sem_run_def
  by (induction ops arbitrary: s) (auto simp: sem_inv_step)

lemma release_wakes_head:
  assumes "sem_inv m s" and "t \<in> set (held s)" and "queue s = w # q"
  shows "held (releaseHandle t s) = remove1 t (held s) @ [w] \<and> queue (releaseHandle t s) = q \<and>
         woken (releaseHandle t s) = woken s @ [w] \<and> inUse (releaseHandle t s) = inUse s"
proof -
  have "length (held s) = Suc (length (remove1 t (held s)))"
    using assms(2) by (simp add: length_remove1) (metis length_pos_if_in_set Suc_pred)
  then have "1 \<le> inUse s"
    using assms(1) by (simp add: sem_inv_def)
  then show ?thesis
    using assms(2,3) by (simp add: releaseHandle_def release_def Let_def)
qed

lemma release_frees_slot:
  assumes "sem_inv m s" and "t \<in> set (held s)" and "queue s = []"
  shows "held (releaseHandle t s) = remove1 t (held s) \<and>
         inUse (releaseHandle t s) = inUse s - 1"
proof -
  have "length (held s) = Suc (length (remove1 t (held s)))"
    using assms(2) by (simp add: length_remove1) (metis length_pos_if_in_set Suc_pred)
  then have "1 \<le> inUse s"
    using assms(1) by (simp add: sem_inv_def)
  then show ?thesis
    using assms(2,3) by (simp add: releaseHandle_def release_def Let_def)
qed

text \<open>
  C8, as stated: for every semaphore constructed with capacity at least 1, \<open>inUse\<close>
  stays within \<open>[0, capacity]\<close>. The constructor accepts every finite positive number;
  with capacity 1.5 the second \<open>acquire\<close> still finds \<open>inUse = 1 < 1.5\<close> and two slots
  are held at once.
\<close>

theorem semaphore_capacity_counterexample:
  "(1::rat) \<le> 3 / 2 \<and>
   Semaphore_new (3 / 2) =
     Some \<lparr>smax = 3 / 2, inUse = 0, queue = [], held = [], nextTicket = 0, waited = [],
            woken = []\<rparr> \<and>
   inUse (sem_run \<lparr>smax = 3 / 2, inUse = 0, queue = [], held = [], nextTicket = 0,
                    waited = [], woken = []\<rparr> [Acquire, Acquire]) = 2 \<and>
   held (sem_run \<lparr>smax = 3 / 2, inUse = 0, queue = [], held = [], nextTicket = 0,
                    waited = [], woken = []\<rparr> [Acquire, Acquire]) = [0, 1] \<and>
   (3 / 2 :: rat) < of_int (inUse (sem_run \<lparr>smax = 3 / 2, inUse = 0, queue = [], held = [],
                    nextTicket = 0, waited = [], woken = []\<rparr> [Acquire, Acquire]))"
  by (simp add: Semaphore_new_def sem_run_def acquire_def Let_def)

text \<open>
  C8, amended: for every semaphore constructed with capacity \<open>m \<ge> 1\<close> and after every
  sequence of \<open>acquire\<close> calls and release-handle calls, \<open>inUse\<close> is the number of
  handles out and unreleased and lies in \<open>[0, \<lceil>m\<rceil>]\<close>, hence in \<open>[0, m]\<close> when the
  capacity is an integer; the tickets that \<open>release\<close> has woken, followed by the tickets
  still queued, are the tickets that had to wait in the order in which they called
  \<open>acquire\<close>, and nobody waits while a slot is free. Releasing a held slot while
  somebody waits hands the slot to the head of the queue and to nobody else; releasing
  it while nobody waits frees one slot.
\<close>

theorem semaphore_bound_and_fifo:
  assumes "1 \<le> m" and "Semaphore_new m = Some s0" and "s = sem_run s0 ops"
  shows "0 \<le> inUse s \<and> inUse s \<le> \<lceil>m\<rceil> \<and> (m \<in> \<int> \<longrightarrow> of_int (inUse s) \<le> m) \<and>
         inUse s = int (length (held s)) \<and>
         waited s = woken s @ queue s \<and> (queue s \<noteq> [] \<longrightarrow> m \<le> of_int (inUse s)) \<and>
         (t \<in> set (held s) \<and> queue s = w # q \<longrightarrow>
            held (releaseHandle t s) = remove1 t (held s) @ [w] \<and>
            queue (releaseHandle t s) = q \<and> woken (releaseHandle t s) = woken s @ [w] \<and>
            inUse (releaseHandle t s) = inUse s) \<and>
         (t \<in> set (held s) \<and> queue s = [] \<longrightarrow>
            held (releaseHandle t s) = remove1 t (held s) \<and>
            inUse (releaseHandle t s) = inUse s - 1)"
proof -
  have inv: "sem_inv m s"
    using assms(2,3) by (simp add: sem_inv_new sem_inv_run)
  then have a: "0 \<le> inUse s" "inUse s \<le> \<lceil>m\<rceil>" "inUse s = int (length (held s))"
    "waited s = woken s @ queue s" "queue s \<noteq> [] \<longrightarrow> m \<le> of_int (inUse s)"
    unfolding sem_inv_def by auto
  have b: "of_int (inUse s) \<le> m" if "m \<in> \<int>"
  proof -
    from that obtain k where k: "m = of_int k"
      by (auto elim: Ints_cases)
    with a(2) have "inUse s \<le> k"
      by simp
    then show ?thesis
      by (simp add: k)
  qed
  from a b release_wakes_head [OF inv, of t w q] release_frees_slot [OF inv, of t]
  show ?thesis
    by blast
qed

theorem semaphore_bound_and_fifo_witness:
  "Semaphore_new 1 =
     Some \<lparr>smax = 1, inUse = 0, queue = [], held = [], nextTicket = 0, waited = [], woken = []\<rparr> \<and>
   inUse (sem_run \<lparr>smax = 1, inUse = 0, queue = [], held = [], nextTicket = 0, waited = [],
                   woken = []\<rparr> [Acquire, Acquire, Acquire]) \<le> 1 \<and>
   held (releaseHandle 0 (sem_run \<lparr>smax = 1, inUse = 0, queue = [], held = [], nextTicket = 0,
                   waited = [], woken = []\<rparr> [Acquire, Acquire, Acquire])) = [1] \<and>
   queue (releaseHandle 0 (sem_run \<lparr>smax = 1, inUse = 0, queue = [], held = [], nextTicket = 0,
                   waited = [], woken = []\<rparr> [Acquire, Acquire, Acquire])) = [2]"
proof -
  let ?init = "\<lparr>smax = 1, inUse = 0, queue = [], held = [], nextTicket = 0, waited = [],
              woken = []\<rparr>"
  let ?run = "sem_run ?init [Acquire, Acquire, Acquire]"
  have n: "Semaphore_new 1 = Some ?init"
    by (simp add: Semaphore_new_def)
  have h: "held ?run = [0]" and q: "queue ?run = 1 # [2]"
    by code_simp+
  have le: "(1::rat) \<le> 1"
    by simp
  note th = semaphore_bound_and_fifo [OF le n refl, of "[Acquire, Acquire, Acquire]" 0 1 "[2]"]
  have "inUse ?run \<le> \<lceil>1::rat\<rceil>"
    by (rule th [THEN conjunct2, THEN conjunct1])
  then have b: "inUse ?run \<le> 1"
    by simp
  have "0 \<in> set (held ?run) \<and> queue ?run = 1 # [2]"
    by (simp only: h q) simp
  then have "held (releaseHandle 0 ?run) = remove1 0 (held ?run) @ [1] \<and>
      queue (releaseHandle 0 ?run) = [2] \<and> woken (releaseHandle 0 ?run) = woken ?run @ [1] \<and>
      inUse (releaseHandle 0 ?run) = inUse ?run"
    by (rule th [THEN conjunct2, THEN conjunct2, THEN conjunct2, THEN conjunct2,
          THEN conjunct2, THEN conjunct2, THEN conjunct1, THEN mp])
  then have r: "held (releaseHandle 0 ?run) = [1]" "queue (releaseHandle 0 ?run) = [2]"
    by (simp_all only: h) simp_all
  from n b r show ?thesis
    by (intro conjI)
qed

section \<open>RpsLimiter\<close>

lemma refill_fields [simp]: "rps (refill now l) = rps l" "burst (refill now l) = burst l"
  by (simp_all add: refill_def Let_def)

lemma refill_tokens_le_burst: "tokens l \<le> burst l \<Longrightarrow> tokens (refill now l) \<le> burst l"
  by (simp add: refill_def Let_def)

lemma refill_lastRefill_le: "lastRefill l \<le> now \<Longrightarrow> lastRefill (refill now l) \<le> now"
  by (simp add: refill_def Let_def)

text \<open>A call that resolves did not start from a bucket capped below \<open>count\<close>.\<close>

lemma take_loop_starved:
  assumes "take_loop late count k now l = Some y"
  shows "\<not> (tokens l \<le> burst l \<and> burst l < count)"
proof (rule take_loop.raw_induct
    [where P = "\<lambda>late count k now l y. \<not> (tokens l \<le> burst l \<and> burst l < count)", OF _ assms])
  fix f :: "(nat \<Rightarrow> rat) \<Rightarrow> rat \<Rightarrow> nat \<Rightarrow> rat \<Rightarrow> limiter \<Rightarrow> (limiter \<times> rat \<times> nat) option"
  fix late count k now l y
  assume IH: "\<And>late count k now l y. f late count k now l = Some y \<Longrightarrow>
                \<not> (tokens l \<le> burst l \<and> burst l < count)"
  assume body: "(let l1 = refill now l in
      if tokens l1 \<ge> count then Some (l1\<lparr>tokens := tokens l1 - count\<rparr>, now, k)
      else
        let need = count - tokens l1;
            waitMs = of_int \<lceil>(need / rps l1) * 1000\<rceil>
        in f late count (Suc k) (now + min waitMs 250 + late k) l1) = Some y"
  show "\<not> (tokens l \<le> burst l \<and> burst l < count)"
  proof
    assume a: "tokens l \<le> burst l \<and> burst l < count"
    then have t: "tokens (refill now l) \<le> burst l"
      by (simp add: refill_tokens_le_burst)
    with a have "\<not> count \<le> tokens (refill now l)"
      by simp
    with body obtain k' now' where "f late count k' now' (refill now l) = Some y"
      by (auto simp: Let_def)
    from IH [OF this] t a show False
      by simp
  qed
qed

lemma refill_after_sleep:
  assumes "0 < rps l" and "lastRefill l \<le> now" and "0 < d" and "now + d \<le> now'"
    and "count \<le> burst l"
  shows "count - tokens (refill now' l) \<le> max 0 (count - tokens l - d / 1000 * rps l)"
proof -
  have e: "0 < now' - lastRefill l" "d \<le> now' - lastRefill l"
    using assms(2,3,4) by simp_all
  have "d / 1000 * rps l \<le> (now' - lastRefill l) / 1000 * rps l"
    using e(2) assms(1) by (simp add: divide_right_mono mult_right_mono)
  moreover have "tokens (refill now' l) =
      min (burst l) (tokens l + (now' - lastRefill l) / 1000 * rps l)"
    using e(1) assms(1) by (simp add: refill_def Let_def)
  ultimately show ?thesis
    using assms(5) by (simp add: min_def max_def)
qed

text \<open>
  Each sleep of 250 ms brings \<open>rps / 4\<close> tokens, and a shorter sleep covers all that is
  missing: a deficit of at most \<open>m * rps / 4\<close> after the refill is gone after at most
  \<open>m\<close> sleeps.
\<close>

lemma take_loop_resolves_aux:
  assumes late: "\<forall>k. 0 \<le> late k"
  shows "0 < rps l \<Longrightarrow> lastRefill l \<le> now \<Longrightarrow> count \<le> burst l \<Longrightarrow>
         count - tokens (refill now l) \<le> of_nat m * rps l / 4 \<Longrightarrow>
         \<exists>y. take_loop late count k now l = Some y"
proof (induction m arbitrary: k now l)
  case 0
  then have "count \<le> tokens (refill now l)"
    by simp
  then show ?case
    by (subst take_loop.simps) (simp add: Let_def)
next
  case (Suc m)
  let ?l1 = "refill now l"
  show ?case
  proof (cases "count \<le> tokens ?l1")
    case True
    then show ?thesis
      by (subst take_loop.simps) (simp add: Let_def)
  next
    case False
    define need where "need = count - tokens ?l1"
    define waitMs :: rat where "waitMs = of_int \<lceil>need / rps ?l1 * 1000\<rceil>"
    define d where "d = min waitMs 250"
    define now' where "now' = now + d + late k"
    have need: "0 < need"
      using False by (simp add: need_def)
    have r: "0 < rps l"
      by (rule Suc.prems(1))
    have "0 < need / rps l * 1000"
      using need r by simp
    then have w1: "need / rps l * 1000 \<le> waitMs" and w0: "0 < waitMs"
      unfolding waitMs_def by (simp_all add: le_of_int_ceiling)
    have d0: "0 < d"
      using w0 by (simp add: d_def)
    have n': "now + d \<le> now'"
      using late by (simp add: now'_def)
    have unfold: "take_loop late count k now l = take_loop late count (Suc k) now' ?l1"
      using False
      by (subst take_loop.simps) (simp add: Let_def need_def waitMs_def d_def now'_def)
    have bound: "count - tokens (refill now' ?l1) \<le> max 0 (need - d / 1000 * rps l)"
      using refill_after_sleep [of ?l1 now d now' count] r d0 n' Suc.prems(2,3)
      by (simp add: refill_lastRefill_le need_def)
    have "need - d / 1000 * rps l \<le> of_nat m * rps l / 4"
    proof (cases "waitMs \<le> 250")
      case True
      then have "d = waitMs"
        by (simp add: d_def)
      with w1 have "need / rps l * 1000 \<le> d"
        by simp
      then have "need \<le> d / 1000 * rps l"
        using r by (simp add: field_simps)
      moreover have "(0::rat) \<le> of_nat m * rps l / 4"
        using r by simp
      ultimately show ?thesis
        by linarith
    next
      case False
      then have "d = 250"
        by (simp add: d_def)
      moreover have "need \<le> of_nat (Suc m) * rps l / 4"
        using Suc.prems(4) by (simp add: need_def)
      ultimately show ?thesis
        by (simp add: field_simps)
    qed
    moreover have "(0::rat) \<le> of_nat m * rps l / 4"
      using r by simp
    ultimately have "count - tokens (refill now' ?l1) \<le> of_nat m * rps ?l1 / 4"
      using bound by simp
    moreover have "lastRefill ?l1 \<le> now'"
      using refill_lastRefill_le [OF Suc.prems(2)] n' d0 by simp
    ultimately have "\<exists>y. take_loop late count (Suc k) now' ?l1 = Some y"
      using Suc.IH [of ?l1 now' "Suc k"] r Suc.prems(3) by simp
    then show ?thesis
      by (simp add: unfold)
  qed
qed

lemma le_of_nat_ceiling_rat: "(x::rat) \<le> of_nat (nat \<lceil>x\<rceil>)"
proof -
  have "x \<le> of_int \<lceil>x\<rceil>"
    by (rule le_of_int_ceiling)
  also have "\<lceil>x\<rceil> \<le> int (nat \<lceil>x\<rceil>)"
    by simp
  then have "(of_int \<lceil>x\<rceil> :: rat) \<le> of_int (int (nat \<lceil>x\<rceil>))"
    by (simp only: of_int_le_iff)
  finally show ?thesis
    by (simp only: of_int_of_nat_eq)
qed

lemma take_loop_resolves:
  assumes "\<forall>k. 0 \<le> late k" and "0 < rps l" and "lastRefill l \<le> now" and "count \<le> burst l"
  shows "\<exists>y. take_loop late count k now l = Some y"
proof -
  define x where "x = 4 * (count - tokens (refill now l)) / rps l"
  have "x \<le> of_nat (nat \<lceil>x\<rceil>)"
    by (rule le_of_nat_ceiling_rat)
  then have "x * rps l \<le> of_nat (nat \<lceil>x\<rceil>) * rps l"
    using assms(2) by (simp add: mult_right_mono)
  moreover have "x * rps l = 4 * (count - tokens (refill now l))"
    using assms(2) by (simp add: x_def)
  ultimately have "count - tokens (refill now l) \<le> of_nat (nat \<lceil>x\<rceil>) * rps l / 4"
    by simp
  then show ?thesis
    using take_loop_resolves_aux [OF assms(1,2,3,4)] by blast
qed

text \<open>
  The bucket starts full, and a call with \<open>count \<ge> 0\<close> that resolves leaves it at or
  below \<open>burst\<close>: \<open>tokens \<le> burst\<close> holds whenever a call starts.
\<close>

lemma RpsLimiter_new_full: "tokens (RpsLimiter_new r b now) = burst (RpsLimiter_new r b now)"
  by (simp add: RpsLimiter_new_def Let_def)

lemma take_loop_keeps_cap:
  assumes "take_loop late count k now l = Some y"
  shows "tokens l \<le> burst l \<and> 0 \<le> count \<longrightarrow>
         tokens (fst y) \<le> burst (fst y) \<and> burst (fst y) = burst l \<and> rps (fst y) = rps l"
proof (rule take_loop.raw_induct
    [where P = "\<lambda>late count k now l y. tokens l \<le> burst l \<and> 0 \<le> count \<longrightarrow>
         tokens (fst y) \<le> burst (fst y) \<and> burst (fst y) = burst l \<and> rps (fst y) = rps l", OF _ assms])
  fix f :: "(nat \<Rightarrow> rat) \<Rightarrow> rat \<Rightarrow> nat \<Rightarrow> rat \<Rightarrow> limiter \<Rightarrow> (limiter \<times> rat \<times> nat) option"
  fix late count k now l y
  assume IH: "\<And>late count k now l y. f late count k now l = Some y \<Longrightarrow>
     tokens l \<le> burst l \<and> 0 \<le> count \<longrightarrow>
     tokens (fst y) \<le> burst (fst y) \<and> burst (fst y) = burst l \<and> rps (fst y) = rps l"
  assume body: "(let l1 = refill now l in
      if tokens l1 \<ge> count then Some (l1\<lparr>tokens := tokens l1 - count\<rparr>, now, k)
      else
        let need = count - tokens l1;
            waitMs = of_int \<lceil>(need / rps l1) * 1000\<rceil>
        in f late count (Suc k) (now + min waitMs 250 + late k) l1) = Some y"
  show "tokens l \<le> burst l \<and> 0 \<le> count \<longrightarrow>
     tokens (fst y) \<le> burst (fst y) \<and> burst (fst y) = burst l \<and> rps (fst y) = rps l"
  proof
    assume a: "tokens l \<le> burst l \<and> 0 \<le> count"
    then have t: "tokens (refill now l) \<le> burst l"
      by (simp add: refill_tokens_le_burst)
    show "tokens (fst y) \<le> burst (fst y) \<and> burst (fst y) = burst l \<and> rps (fst y) = rps l"
    proof (cases "count \<le> tokens (refill now l)")
      case True
      with body t a show ?thesis
        by (auto simp: Let_def)
    next
      case False
      with body obtain k' now' where "f late count k' now' (refill now l) = Some y"
        by (auto simp: Let_def)
      from IH [OF this] t a show ?thesis
        by simp
    qed
  qed
qed

text \<open>
  C9: for a limiter with \<open>rps > 0\<close>, a bucket that holds at most \<open>burst\<close> tokens, and a
  clock that never runs behind the timers, \<open>take(count)\<close> resolves whenever
  \<open>count \<le> burst\<close> and never resolves when \<open>count > burst\<close>.
\<close>

theorem take_resolves_iff:
  assumes "0 < rps l" and "tokens l \<le> burst l" and "lastRefill l \<le> now"
    and "\<forall>k. 0 \<le> late k"
  shows "(count \<le> burst l \<longrightarrow> (\<exists>y. take_limiter late count now l = Some y)) \<and>
         (burst l < count \<longrightarrow> take_limiter late count now l = None)"
proof -
  have "take_limiter late count now l = take_loop late count 0 now l"
    using assms(1) by (simp add: take_limiter_def)
  moreover have "burst l < count \<Longrightarrow> take_loop late count 0 now l = None"
    using take_loop_starved [of late count 0 now l] assms(2)
    by (cases "take_loop late count 0 now l") auto
  ultimately show ?thesis
    using take_loop_resolves [OF assms(4,1,3)] by auto
qed

theorem take_resolves_iff_witness:
  "take_limiter (\<lambda>k. 0) 11 0 \<lparr>rps = 10, burst = 10, tokens = 0, lastRefill = 0\<rparr> = None \<and>
   take_limiter (\<lambda>k. 0) 5 0 \<lparr>rps = 10, burst = 10, tokens = 0, lastRefill = 0\<rparr> =
     Some (\<lparr>rps = 10, burst = 10, tokens = 0, lastRefill = 500\<rparr>, 500, 2)"
proof -
  have e: "take_limiter (\<lambda>k. 0) 5 0 \<lparr>rps = 10, burst = 10, tokens = 0, lastRefill = 0\<rparr> =
     Some (\<lparr>rps = 10, burst = 10, tokens = 0, lastRefill = 500\<rparr>, 500, 2)"
    by code_simp
  show ?thesis
    using take_resolves_iff
      [of "\<lparr>rps = 10, burst = 10, tokens = 0, lastRefill = 0\<rparr>" 0 "\<lambda>k. 0" 11] e
    by simp
qed

end
